theory Spec2Isabelle
  imports Main
begin

section \<open>The universal renderer of agenticDS\<close>

text \<open>
  The development embeds the class \<^verbatim>\<open>UniversalRenderer\<close> of
  \<^verbatim>\<open>backend/rendering/universal_renderer.py\<close>, as it is written in
  \<^verbatim>\<open>COMPLETE_PRODUCT_ROADMAP_V2.md\<close> (lines 196 to 362): the two indices, the
  validator, the markup compiler, the two metadata extractors and the facade
  \<^verbatim>\<open>render_design_specification\<close>. Every \<^verbatim>\<open>raise\<close> of the class is a branch
  of the model; the interpreter's own limits (the recursion limit on a very deep tree,
  memory) are not modelled.
\<close>

subsection \<open>Python values and their text\<close>

text \<open>
  A prop value or a token value is any JSON value. The code inspects a value only through
  \<^verbatim>\<open>isinstance\<close>, truthiness, the test \<^verbatim>\<open>'/' in value\<close> and f-string
  formatting, so a float and a container (list or dict) are represented by the text that
  \<^verbatim>\<open>str\<close> gives for them.
\<close>

datatype pyval =
    VNone
  | VBool bool
  | VInt int
  | VFloat string
  | VStr string
  | VOther string

definition dquote :: char where
  "dquote = CHR 0x22"

definition newline :: char where
  "newline = CHR 0x0A"

definition digit_char :: "nat \<Rightarrow> char" where
  "digit_char n = ''0123456789'' ! (n mod 10)"

function str_nat :: "nat \<Rightarrow> string" where
  "str_nat n = (if n < 10 then [digit_char n] else str_nat (n div 10) @ [digit_char n])"
  by pat_completeness auto
termination
  by (relation "measure id") auto

declare str_nat.simps [simp del]

definition str_int :: "int \<Rightarrow> string" where
  "str_int i = (if i < 0 then ''-'' @ str_nat (nat (- i)) else str_nat (nat i))"

text \<open>\<^verbatim>\<open>str(value)\<close>, which is what an f-string field \<^verbatim>\<open>{value}\<close> inserts.\<close>

fun py_str :: "pyval \<Rightarrow> string" where
  "py_str VNone = ''None''"
| "py_str (VBool b) = (if b then ''True'' else ''False'')"
| "py_str (VInt i) = str_int i"
| "py_str (VFloat r) = r"
| "py_str (VStr s) = s"
| "py_str (VOther r) = r"

text \<open>A name read with \<^verbatim>\<open>.get('name')\<close> or \<^verbatim>\<open>.get('type')\<close> is \<^verbatim>\<open>None\<close>
  when the key is absent; an f-string prints that as \<^verbatim>\<open>None\<close>.\<close>

fun name_str :: "string option \<Rightarrow> string" where
  "name_str None = ''None''"
| "name_str (Some s) = s"

text \<open>\<^verbatim>\<open>sep.join(parts)\<close>.\<close>

fun join :: "string \<Rightarrow> string list \<Rightarrow> string" where
  "join sep [] = []"
| "join sep [x] = x"
| "join sep (x # y # ys) = x @ sep @ join sep (y # ys)"

subsection \<open>Design system, specification tree, renderer\<close>

text \<open>
  A token and a component are dicts; the renderer reads \<^verbatim>\<open>name\<close> of both and
  \<^verbatim>\<open>value\<close> of a token, each with \<^verbatim>\<open>.get\<close>, so each may be absent. The other
  keys (description, fontFamily, id, ...) are kept as an association list.
\<close>

record token =
  tok_name :: "string option"
  tok_value :: "pyval option"
  tok_fields :: "(string \<times> pyval) list"

record component =
  comp_name :: "string option"
  comp_fields :: "(string \<times> pyval) list"

text \<open>
  The design system: \<^verbatim>\<open>design_system['tokens']\<close> is read by subscript, so the key is
  there, and is a dict from the collection name to a list of tokens, read with
  \<^verbatim>\<open>.get(token_type, [])\<close>; \<^verbatim>\<open>components\<close> is read with
  \<^verbatim>\<open>.get('components', [])\<close>.
\<close>

record design_system =
  ds_tokens :: "string \<rightharpoonup> token list"
  ds_components :: "component list option"

text \<open>
  A specification node is a dict with the keys \<^verbatim>\<open>type\<close>, \<^verbatim>\<open>props\<close>,
  \<^verbatim>\<open>children\<close> and \<^verbatim>\<open>content\<close>. The last three are read with the defaults
  \<^verbatim>\<open>{}\<close>, \<^verbatim>\<open>[]\<close> and \<^verbatim>\<open>''\<close>, so an absent key is its default here;
  \<^verbatim>\<open>props\<close> is a dict, listed in its iteration order.
\<close>

datatype node =
  Node (ntype: "string option") (props: "(string \<times> pyval) list")
       (children: "node list") (content: string)

text \<open>
  Every \<^verbatim>\<open>raise\<close> of the class is a \<^verbatim>\<open>ValueError\<close> whose message names a
  component type or a token: \<^verbatim>\<open>Component 'X' not in design system\<close> and
  \<^verbatim>\<open>Token 'X' not found in design system\<close> in the validator,
  \<^verbatim>\<open>Component 'X' not found in design system\<close> and \<^verbatim>\<open>Token 'X' not found\<close> in the
  compiler. An error is represented by its kind and the name in its message.
\<close>

datatype error =
    UnknownComponent "string option"
  | UnknownToken string

record renderer =
  design_system :: design_system
  tokens :: "string option \<rightharpoonup> token"
  components :: "string option \<rightharpoonup> component"

subsection \<open>The indices\<close>

fun index_token_list :: "token list \<Rightarrow> (string option \<rightharpoonup> token) \<Rightarrow> (string option \<rightharpoonup> token)" where
  "index_token_list [] index = index"
| "index_token_list (token # rest) index = index_token_list rest (index(tok_name token \<mapsto> token))"

definition get_token_list :: "(string \<rightharpoonup> token list) \<Rightarrow> string \<Rightarrow> token list" where
  "get_token_list d token_type = (case d token_type of None \<Rightarrow> [] | Some ts \<Rightarrow> ts)"

fun index_token_types :: "(string \<rightharpoonup> token list) \<Rightarrow> string list \<Rightarrow> (string option \<rightharpoonup> token) \<Rightarrow> (string option \<rightharpoonup> token)" where
  "index_token_types d [] index = index"
| "index_token_types d (token_type # rest) index =
     index_token_types d rest (index_token_list (get_token_list d token_type) index)"

definition index_tokens :: "design_system \<Rightarrow> (string option \<rightharpoonup> token)" where
  "index_tokens ds = index_token_types (ds_tokens ds) [''colors'', ''typography'', ''spacing''] Map.empty"

fun index_component_list :: "component list \<Rightarrow> (string option \<rightharpoonup> component) \<Rightarrow> (string option \<rightharpoonup> component)" where
  "index_component_list [] index = index"
| "index_component_list (c # rest) index = index_component_list rest (index(comp_name c \<mapsto> c))"

definition index_components :: "design_system \<Rightarrow> (string option \<rightharpoonup> component)" where
  "index_components ds =
     index_component_list (case ds_components ds of None \<Rightarrow> [] | Some cs \<Rightarrow> cs) Map.empty"

text \<open>\<^verbatim>\<open>__init__\<close>.\<close>

definition UniversalRenderer :: "design_system \<Rightarrow> renderer" where
  "UniversalRenderer ds =
     \<lparr>design_system = ds, tokens = index_tokens ds, components = index_components ds\<rparr>"

subsection \<open>Lookups\<close>

fun is_token_reference :: "pyval \<Rightarrow> bool" where
  "is_token_reference (VStr s) = (CHR ''/'' \<in> set s)"
| "is_token_reference _ = False"

definition component_exists :: "renderer \<Rightarrow> string option \<Rightarrow> bool" where
  "component_exists self component_name = (components self component_name \<noteq> None)"

text \<open>\<^verbatim>\<open>self.tokens[token_name].get('value', token_name)\<close>, or the raise.\<close>

definition resolve_token :: "renderer \<Rightarrow> string \<Rightarrow> error + pyval" where
  "resolve_token self token_name =
     (case tokens self (Some token_name) of
        Some t \<Rightarrow> Inr (case tok_value t of Some v \<Rightarrow> v | None \<Rightarrow> VStr token_name)
      | None \<Rightarrow> Inl (UnknownToken token_name))"

subsection \<open>The validator\<close>

fun validate_props :: "renderer \<Rightarrow> (string \<times> pyval) list \<Rightarrow> error + unit" where
  "validate_props self [] = Inr ()"
| "validate_props self ((key, v) # rest) =
     (case v of
        VStr s \<Rightarrow>
          (if is_token_reference (VStr s) \<and> tokens self (Some s) = None
           then Inl (UnknownToken s)
           else validate_props self rest)
      | _ \<Rightarrow> validate_props self rest)"

fun validate_node :: "renderer \<Rightarrow> node \<Rightarrow> error + unit"
  and validate_children :: "renderer \<Rightarrow> node list \<Rightarrow> error + unit" where
  "validate_node self (Node component_type ps cs c) =
     (if \<not> component_exists self component_type then Inl (UnknownComponent component_type)
      else (case validate_props self ps of
              Inl e \<Rightarrow> Inl e
            | Inr _ \<Rightarrow> validate_children self cs))"
| "validate_children self [] = Inr ()"
| "validate_children self (child # rest) =
     (case validate_node self child of
        Inl e \<Rightarrow> Inl e
      | Inr _ \<Rightarrow> validate_children self rest)"

definition validate_specification :: "renderer \<Rightarrow> node \<Rightarrow> error + bool" where
  "validate_specification self spec =
     (case validate_node self spec of Inl e \<Rightarrow> Inl e | Inr _ \<Rightarrow> Inr True)"

subsection \<open>The markup compiler\<close>

fun resolve_parts :: "renderer \<Rightarrow> (string \<times> pyval) list \<Rightarrow> string list \<Rightarrow> error + string list" where
  "resolve_parts self [] parts = Inr parts"
| "resolve_parts self ((key, v) # rest) parts =
     (case v of
        VStr s \<Rightarrow>
          (if is_token_reference (VStr s)
           then (case resolve_token self s of
                   Inl e \<Rightarrow> Inl e
                 | Inr token_value \<Rightarrow>
                     resolve_parts self rest
                       (parts @ [key @ ''='' @ [dquote] @ py_str token_value @ [dquote]]))
           else resolve_parts self rest (parts @ [key @ ''='' @ [dquote] @ s @ [dquote]]))
      | VBool b \<Rightarrow>
          (if b then resolve_parts self rest (parts @ [key]) else resolve_parts self rest parts)
      | VInt i \<Rightarrow> resolve_parts self rest (parts @ [key @ ''='' @ str_int i])
      | VFloat r \<Rightarrow> resolve_parts self rest (parts @ [key @ ''='' @ r])
      | _ \<Rightarrow> resolve_parts self rest parts)"

definition resolve_props :: "renderer \<Rightarrow> (string \<times> pyval) list \<Rightarrow> error + string" where
  "resolve_props self ps =
     (case resolve_parts self ps [] of Inl e \<Rightarrow> Inl e | Inr parts \<Rightarrow> Inr (join '' '' parts))"

text \<open>\<^verbatim>\<open>'  ' * depth\<close>: the empty string when \<^verbatim>\<open>depth\<close> is not positive.\<close>

definition indent_of :: "int \<Rightarrow> string" where
  "indent_of depth = concat (replicate (nat depth) ''  '')"

fun specification_to_jsx :: "renderer \<Rightarrow> node \<Rightarrow> int \<Rightarrow> error + string"
  and children_to_jsx :: "renderer \<Rightarrow> node list \<Rightarrow> int \<Rightarrow> error + string list" where
  "specification_to_jsx self (Node component_type ps cs c) depth =
     (if \<not> component_exists self component_type then Inl (UnknownComponent component_type)
      else (case resolve_props self ps of
              Inl e \<Rightarrow> Inl e
            | Inr jsx_props \<Rightarrow>
                (if cs \<noteq> [] then
                   (case children_to_jsx self cs (depth + 1) of
                      Inl e \<Rightarrow> Inl e
                    | Inr children_jsx \<Rightarrow>
                        Inr (indent_of depth @ ''<'' @ name_str component_type @ '' '' @ jsx_props
                             @ ''>'' @ [newline] @ join [newline] children_jsx @ [newline]
                             @ indent_of depth @ ''</'' @ name_str component_type @ ''>''))
                 else if c \<noteq> [] then
                   Inr (indent_of depth @ ''<'' @ name_str component_type @ '' '' @ jsx_props
                        @ ''>'' @ c @ ''</'' @ name_str component_type @ ''>'')
                 else
                   Inr (indent_of depth @ ''<'' @ name_str component_type @ '' '' @ jsx_props
                        @ '' />''))))"
| "children_to_jsx self [] depth = Inr []"
| "children_to_jsx self (child # rest) depth =
     (case specification_to_jsx self child depth of
        Inl e \<Rightarrow> Inl e
      | Inr j \<Rightarrow> (case children_to_jsx self rest depth of
                    Inl e \<Rightarrow> Inl e
                  | Inr js \<Rightarrow> Inr (j # js)))"

subsection \<open>The metadata extractors\<close>

text \<open>
  The Python \<^verbatim>\<open>set\<close> that both extractors fill is a list without repetitions:
  \<^verbatim>\<open>add\<close> is \<^const>\<open>List.insert\<close>. The order in which \<^verbatim>\<open>list(tokens)\<close> lists
  the elements depends on hashing, so only the elements of the result are meaningful.
\<close>

fun extract_tokens_values :: "renderer \<Rightarrow> (string \<times> pyval) list \<Rightarrow> string list \<Rightarrow> string list" where
  "extract_tokens_values self [] acc = acc"
| "extract_tokens_values self ((key, v) # rest) acc =
     (case v of
        VStr s \<Rightarrow>
          (if is_token_reference (VStr s) \<and> tokens self (Some s) \<noteq> None
           then extract_tokens_values self rest (List.insert s acc)
           else extract_tokens_values self rest acc)
      | _ \<Rightarrow> extract_tokens_values self rest acc)"

fun extract_tokens_node :: "renderer \<Rightarrow> node \<Rightarrow> string list \<Rightarrow> string list"
  and extract_tokens_children :: "renderer \<Rightarrow> node list \<Rightarrow> string list \<Rightarrow> string list" where
  "extract_tokens_node self (Node component_type ps cs c) acc =
     extract_tokens_children self cs (extract_tokens_values self ps acc)"
| "extract_tokens_children self [] acc = acc"
| "extract_tokens_children self (child # rest) acc =
     extract_tokens_children self rest (extract_tokens_node self child acc)"

definition extract_tokens_from_spec :: "renderer \<Rightarrow> node \<Rightarrow> string list" where
  "extract_tokens_from_spec self spec = extract_tokens_node self spec []"

text \<open>\<^verbatim>\<open>if component_type and self._component_exists(component_type)\<close>:
  \<^verbatim>\<open>None\<close> and the empty string are falsy.\<close>

fun extract_components_node :: "renderer \<Rightarrow> node \<Rightarrow> string list \<Rightarrow> string list"
  and extract_components_children :: "renderer \<Rightarrow> node list \<Rightarrow> string list \<Rightarrow> string list" where
  "extract_components_node self (Node component_type ps cs c) acc =
     extract_components_children self cs
       (case component_type of
          None \<Rightarrow> acc
        | Some s \<Rightarrow>
            (if s \<noteq> [] \<and> component_exists self (Some s) then List.insert s acc else acc))"
| "extract_components_children self [] acc = acc"
| "extract_components_children self (child # rest) acc =
     extract_components_children self rest (extract_components_node self child acc)"

definition extract_components_from_spec :: "renderer \<Rightarrow> node \<Rightarrow> string list" where
  "extract_components_from_spec self spec = extract_components_node self spec []"

subsection \<open>The facade\<close>

text \<open>The returned dict; its key \<^verbatim>\<open>specification\<close> is the field \<open>rr_specification\<close>.\<close>

record render_result =
  jsx :: string
  rr_specification :: node
  tokens_used :: "string list"
  components_used :: "string list"
  valid :: bool

definition render_design_specification :: "renderer \<Rightarrow> node \<Rightarrow> error + render_result" where
  "render_design_specification self spec =
     (case validate_specification self spec of
        Inl e \<Rightarrow> Inl e
      | Inr _ \<Rightarrow>
          (case specification_to_jsx self spec 0 of
             Inl e \<Rightarrow> Inl e
           | Inr jsx_code \<Rightarrow>
               Inr \<lparr>jsx = jsx_code, rr_specification = spec,
                    tokens_used = extract_tokens_from_spec self spec,
                    components_used = extract_components_from_spec self spec,
                    valid = True\<rparr>))"

subsection \<open>Notions used to state the properties\<close>

text \<open>The nodes of a specification tree, in depth-first pre-order.\<close>

fun nodes :: "node \<Rightarrow> node list" where
  "nodes (Node t ps cs c) = Node t ps cs c # concat (map nodes cs)"

text \<open>The token-reference-shaped prop values of a prop dict and of a whole tree, and the
  types of a whole tree, with repetitions, in traversal order.\<close>

fun token_refs :: "(string \<times> pyval) list \<Rightarrow> string list" where
  "token_refs [] = []"
| "token_refs ((k, VStr s) # rest) = (if CHR ''/'' \<in> set s then s # token_refs rest else token_refs rest)"
| "token_refs (_ # rest) = token_refs rest"

definition referenced_tokens :: "node \<Rightarrow> string list" where
  "referenced_tokens spec = concat (map (\<lambda>n. token_refs (props n)) (nodes spec))"

definition referenced_types :: "node \<Rightarrow> string option list" where
  "referenced_types spec = map ntype (nodes spec)"

text \<open>
  The validator's checks as the specification words them: at a node, first the type
  against the component index, then each prop in order against the token index; the
  checks of a tree are those of its nodes in pre-order, and the error surfaced is the first
  one in that sequence.
\<close>

fun prop_check :: "renderer \<Rightarrow> string \<times> pyval \<Rightarrow> error option" where
  "prop_check self (k, VStr s) =
     (if CHR ''/'' \<in> set s \<and> tokens self (Some s) = None then Some (UnknownToken s) else None)"
| "prop_check self (k, _) = None"

definition node_checks :: "renderer \<Rightarrow> node \<Rightarrow> error option list" where
  "node_checks self n =
     (if components self (ntype n) = None then Some (UnknownComponent (ntype n)) else None)
     # map (prop_check self) (props n)"

definition traversal_checks :: "renderer \<Rightarrow> node \<Rightarrow> error option list" where
  "traversal_checks self spec = concat (map (node_checks self) (nodes spec))"

fun first_error :: "error option list \<Rightarrow> error option" where
  "first_error [] = None"
| "first_error (None # rest) = first_error rest"
| "first_error (Some e # rest) = Some e"

text \<open>
  What one prop contributes to the attributes, case by case: a string without \<^verbatim>\<open>/\<close>
  gives \<^verbatim>\<open>key="value"\<close>; a string with \<^verbatim>\<open>/\<close> gives \<^verbatim>\<open>key="..."\<close> with the text
  of the token's \<^verbatim>\<open>value\<close>, or with the name itself when the token has no such key,
  and is an error when the token index lacks the name; \<^verbatim>\<open>True\<close> gives the bare key;
  an int or a float gives \<^verbatim>\<open>key=value\<close>; \<^verbatim>\<open>False\<close>, \<^verbatim>\<open>None\<close>, lists and dicts
  give nothing. The attributes of a prop dict are those of its props in order, or the first
  error.
\<close>

fun attribute_of :: "renderer \<Rightarrow> string \<times> pyval \<Rightarrow> error + string list" where
  "attribute_of self (k, VStr s) =
     (if CHR ''/'' \<in> set s then
        (case tokens self (Some s) of
           None \<Rightarrow> Inl (UnknownToken s)
         | Some t \<Rightarrow>
             Inr [k @ ''='' @ [dquote] @ (case tok_value t of None \<Rightarrow> s | Some v \<Rightarrow> py_str v)
                  @ [dquote]])
      else Inr [k @ ''='' @ [dquote] @ s @ [dquote]])"
| "attribute_of self (k, VBool b) = Inr (if b then [k] else [])"
| "attribute_of self (k, VInt i) = Inr [k @ ''='' @ str_int i]"
| "attribute_of self (k, VFloat r) = Inr [k @ ''='' @ r]"
| "attribute_of self (k, VNone) = Inr []"
| "attribute_of self (k, VOther r) = Inr []"

fun attributes_of :: "renderer \<Rightarrow> (string \<times> pyval) list \<Rightarrow> error + string list" where
  "attributes_of self [] = Inr []"
| "attributes_of self (kv # rest) =
     (case attribute_of self kv of
        Inl e \<Rightarrow> Inl e
      | Inr a \<Rightarrow> (case attributes_of self rest of Inl e \<Rightarrow> Inl e | Inr as \<Rightarrow> Inr (a @ as)))"

text \<open>The tokens and the components of a design system in the order in which the index
  builders enumerate them.\<close>

definition enumerate_tokens :: "design_system \<Rightarrow> token list" where
  "enumerate_tokens ds =
     get_token_list (ds_tokens ds) ''colors'' @ get_token_list (ds_tokens ds) ''typography''
     @ get_token_list (ds_tokens ds) ''spacing''"

definition enumerate_components :: "design_system \<Rightarrow> component list" where
  "enumerate_components ds = (case ds_components ds of None \<Rightarrow> [] | Some cs \<Rightarrow> cs)"

text \<open>The last element of a list that satisfies a predicate, if there is one.\<close>

definition last_with :: "('a \<Rightarrow> bool) \<Rightarrow> 'a list \<Rightarrow> 'a option" where
  "last_with P xs = (case rev (filter P xs) of [] \<Rightarrow> None | x # _ \<Rightarrow> Some x)"

text \<open>The tree with every \<^verbatim>\<open>content\<close> replaced by the text that \<open>f\<close> gives.\<close>

fun map_content :: "(string \<Rightarrow> string) \<Rightarrow> node \<Rightarrow> node" where
  "map_content f (Node t ps cs c) = Node t ps (map (map_content f) cs) (f c)"

subsection \<open>Concrete design systems and specifications\<close>

text \<open>The design system of the specification's first example: the colour token
  \<^verbatim>\<open>primary/500 = "#3B82F6"\<close> and the component Button.\<close>

definition ds_button :: design_system where
  "ds_button =
     \<lparr>ds_tokens =
        [''colors'' \<mapsto> [\<lparr>tok_name = Some ''primary/500'', tok_value = Some (VStr ''#3B82F6''),
                          tok_fields = []\<rparr>],
         ''typography'' \<mapsto> [],
         ''spacing'' \<mapsto> []],
      ds_components = Some [\<lparr>comp_name = Some ''Button'', comp_fields = []\<rparr>]\<rparr>"

text \<open>A larger one: the same colour token, a typography token without a \<^verbatim>\<open>value\<close>
  key (the plugin's text styles have none), and the components Button, Container and
  Text.\<close>

definition ds_site :: design_system where
  "ds_site =
     \<lparr>ds_tokens =
        [''colors'' \<mapsto> [\<lparr>tok_name = Some ''primary/500'', tok_value = Some (VStr ''#3B82F6''),
                          tok_fields = []\<rparr>],
         ''typography'' \<mapsto> [\<lparr>tok_name = Some ''heading/h1'', tok_value = None,
                              tok_fields = [(''fontFamily'', VStr ''Inter'')]\<rparr>],
         ''spacing'' \<mapsto> []],
      ds_components =
        Some [\<lparr>comp_name = Some ''Button'', comp_fields = []\<rparr>,
              \<lparr>comp_name = Some ''Container'', comp_fields = []\<rparr>,
              \<lparr>comp_name = Some ''Text'', comp_fields = []\<rparr>]\<rparr>"

definition spec_button :: node where
  "spec_button = Node (Some ''Button'') [(''backgroundColor'', VStr ''primary/500'')] [] ''Go''"


definition spec_accent :: node where
  "spec_accent = Node (Some ''Button'') [(''backgroundColor'', VStr ''accent/900'')] [] []"

definition spec_nested :: node where
  "spec_nested = Node (Some ''Container'') [] [Node (Some ''Text'') [] [] ''Hi''] []"

text \<open>A tree with three faults: an unknown token at the root, an unknown component as
  first child, an unknown token in the second child.\<close>

definition spec_faulty :: node where
  "spec_faulty =
     Node (Some ''Container'') [(''gap'', VInt 8), (''background'', VStr ''accent/900'')]
       [Node (Some ''Toggle'') [] [] [],
        Node (Some ''Text'') [(''color'', VStr ''accent/100'')] [] ''Hi'']
       []"

text \<open>A node that has children and content at once, a node whose content looks like a
  token reference, and a node whose content is the name of a token.\<close>

definition spec_both :: node where
  "spec_both = Node (Some ''Container'') [] [Node (Some ''Text'') [] [] ''Hi''] ''dropped''"

definition spec_slash_content :: node where
  "spec_slash_content = Node (Some ''Text'') [] [] ''accent/900''"

definition spec_token_content :: node where
  "spec_token_content = Node (Some ''Text'') [] [] ''primary/500''"

text \<open>A tree that names one token twice and one component twice, and names a token and
  a component that the design system does not have.\<close>

definition spec_repeats :: node where
  "spec_repeats =
     Node (Some ''Container'') [(''background'', VStr ''primary/500'')]
       [Node (Some ''Button'') [(''color'', VStr ''primary/500'')] [] ''A'',
        Node (Some ''Button'') [(''font'', VStr ''heading/h1'')] [] ''B'']
       []"

definition spec_unknowns :: node where
  "spec_unknowns = Node (Some ''Toggle'') [(''color'', VStr ''accent/900'')] [] []"

text \<open>A prop dict with every kind of value.\<close>

definition props_mixed :: "(string \<times> pyval) list" where
  "props_mixed =
     [(''size'', VInt 12), (''disabled'', VBool False), (''primary'', VBool True),
      (''font'', VStr ''heading/h1''), (''label'', VStr ''Go''), (''ratio'', VFloat ''1.5''),
      (''style'', VOther ''{}''), (''icon'', VNone), (''color'', VStr ''primary/500'')]"

text \<open>A design system with the name \<^verbatim>\<open>gap\<close> in two token collections and the
  component name \<^verbatim>\<open>Card\<close> twice.\<close>

definition gap_colour :: token where
  "gap_colour = \<lparr>tok_name = Some ''gap'', tok_value = Some (VStr ''red''), tok_fields = []\<rparr>"

definition gap_spacing :: token where
  "gap_spacing = \<lparr>tok_name = Some ''gap'', tok_value = Some (VInt 8), tok_fields = []\<rparr>"

definition card_first :: component where
  "card_first = \<lparr>comp_name = Some ''Card'', comp_fields = [(''id'', VStr ''1:1'')]\<rparr>"

definition card_second :: component where
  "card_second = \<lparr>comp_name = Some ''Card'', comp_fields = [(''id'', VStr ''1:2'')]\<rparr>"

definition ds_duplicates :: design_system where
  "ds_duplicates =
     \<lparr>ds_tokens = [''colors'' \<mapsto> [gap_colour], ''spacing'' \<mapsto> [gap_spacing]],
      ds_components = Some [card_first, card_second]\<rparr>"

lemmas renderer_defs =
  UniversalRenderer_def index_tokens_def index_components_def get_token_list_def
  component_exists_def resolve_token_def resolve_props_def validate_specification_def
  render_design_specification_def extract_tokens_from_spec_def extract_components_from_spec_def
  indent_of_def dquote_def newline_def

section \<open>Properties\<close>

subsection \<open>Validation as a sequence of checks\<close>

lemma first_error_append:
  "first_error (xs @ ys) = (case first_error xs of None \<Rightarrow> first_error ys | Some e \<Rightarrow> Some e)"
  by (induction xs rule: first_error.induct) auto

lemma validate_props_checks:
  "validate_props self ps =
     (case first_error (map (prop_check self) ps) of None \<Rightarrow> Inr () | Some e \<Rightarrow> Inl e)"
  by (induction self ps rule: validate_props.induct) (auto split: pyval.splits)

lemma validate_node_checks:
  "validate_node self n =
     (case first_error (concat (map (node_checks self) (nodes n))) of
        None \<Rightarrow> Inr () | Some e \<Rightarrow> Inl e)"
  "validate_children self cs =
     (case first_error (concat (map (node_checks self) (concat (map nodes cs)))) of
        None \<Rightarrow> Inr () | Some e \<Rightarrow> Inl e)"
  by (induction self n and self cs rule: validate_node_validate_children.induct)
     (auto simp: node_checks_def component_exists_def validate_props_checks first_error_append
           split: option.splits sum.splits)

lemma first_error_None_iff: "first_error cs = None \<longleftrightarrow> (\<forall>c \<in> set cs. c = None)"
  by (induction cs rule: first_error.induct) auto

lemma first_error_Some_mem: "first_error cs = Some e \<Longrightarrow> Some e \<in> set cs"
  by (induction cs rule: first_error.induct) auto

lemma prop_check_None_iff:
  "prop_check self kv = None \<longleftrightarrow>
     (\<forall>s. snd kv = VStr s \<longrightarrow> CHR ''/'' \<in> set s \<longrightarrow> Some s \<in> dom (tokens self))"
  by (cases "(self, kv)" rule: prop_check.cases) (auto simp: domIff)

lemma first_error_ok_iff:
  "(case first_error cs of None \<Rightarrow> Inr () | Some e \<Rightarrow> Inl e) = (Inr () :: error + unit)
     \<longleftrightarrow> (\<forall>c \<in> set cs. c = None)"
  by (simp add: first_error_None_iff[symmetric] split: option.splits)

lemma node_checks_None_iff:
  "(\<forall>c \<in> set (node_checks self n). c = None) \<longleftrightarrow>
     ntype n \<in> dom (components self) \<and>
     (\<forall>(k, v) \<in> set (props n). \<forall>s. v = VStr s \<longrightarrow> CHR ''/'' \<in> set s \<longrightarrow> Some s \<in> dom (tokens self))"
  by (auto simp: node_checks_def prop_check_None_iff domIff)

lemma validate_node_ok_iff:
  "validate_node self spec = Inr () \<longleftrightarrow>
     (\<forall>n \<in> set (nodes spec). ntype n \<in> dom (components self) \<and>
        (\<forall>(k, v) \<in> set (props n). \<forall>s. v = VStr s \<longrightarrow> CHR ''/'' \<in> set s \<longrightarrow> Some s \<in> dom (tokens self)))"
proof -
  have "validate_node self spec = Inr () \<longleftrightarrow>
          (\<forall>n \<in> set (nodes spec). \<forall>c \<in> set (node_checks self n). c = None)"
    unfolding validate_node_checks first_error_ok_iff by auto
  then show ?thesis
    unfolding node_checks_None_iff .
qed




lemma children_to_jsx_map:
  "children_to_jsx self cs d = Inr js \<longleftrightarrow> map (\<lambda>ch. specification_to_jsx self ch d) cs = map Inr js"
proof (induction cs arbitrary: js)
  case Nil
  show ?case by auto
next
  case (Cons a cs)
  show ?case
  proof (cases "specification_to_jsx self a d")
    case (Inl e)
    then show ?thesis by (cases js) auto
  next
    case (Inr j)
    show ?thesis
    proof (cases "children_to_jsx self cs d")
      case (Inl e)
      with Cons.IH have "\<And>js'. map (\<lambda>ch. specification_to_jsx self ch d) cs \<noteq> map Inr js'"
        by auto
      with Inl Inr show ?thesis by (cases js) auto
    next
      case r: (Inr js')
      with Cons.IH[of js'] have m: "map (\<lambda>ch. specification_to_jsx self ch d) cs = map Inr js'"
        by simp
      show ?thesis using Inr r m by (cases js) (auto simp: inj_map_eq_map)
    qed
  qed
qed

lemma validate_specification_cases:
  "(\<exists>e. validate_specification self spec = Inl e) \<or> validate_specification self spec = Inr True"
  by (simp add: validate_specification_def split: sum.splits)

subsection \<open>C1: when validation succeeds\<close>

text \<open>
  Claim C1. For every design system and every specification tree, validation against the
  indices of the design system succeeds (returns \<^verbatim>\<open>True\<close>) if and only if the type
  of every node of the tree is a key of the component index and every prop value of every
  node that is a string containing \<^verbatim>\<open>/\<close> is a key of the token index. No other
  prop value enters the condition, so none of them makes validation fail. Validation has
  no third outcome: it raises or returns \<^verbatim>\<open>True\<close>.
\<close>

theorem validate_specification_iff:
  "(validate_specification (UniversalRenderer ds) spec = Inr True \<longleftrightarrow>
      (\<forall>n \<in> set (nodes spec). ntype n \<in> dom (index_components ds)) \<and>
      (\<forall>n \<in> set (nodes spec). \<forall>(k, v) \<in> set (props n).
          \<forall>s. v = VStr s \<and> CHR ''/'' \<in> set s \<longrightarrow> Some s \<in> dom (index_tokens ds)))
   \<and> ((\<exists>e. validate_specification (UniversalRenderer ds) spec = Inl e)
         \<or> validate_specification (UniversalRenderer ds) spec = Inr True)"
proof -
  have "validate_specification (UniversalRenderer ds) spec = Inr True \<longleftrightarrow>
          validate_node (UniversalRenderer ds) spec = Inr ()"
    by (simp add: validate_specification_def split: sum.splits)
  also have "\<dots> \<longleftrightarrow>
      (\<forall>n \<in> set (nodes spec). ntype n \<in> dom (index_components ds)) \<and>
      (\<forall>n \<in> set (nodes spec). \<forall>(k, v) \<in> set (props n).
          \<forall>s. v = VStr s \<and> CHR ''/'' \<in> set s \<longrightarrow> Some s \<in> dom (index_tokens ds))"
    unfolding validate_node_ok_iff by (simp add: UniversalRenderer_def) blast
  finally show ?thesis
    using validate_specification_cases[of "UniversalRenderer ds" spec] by blast
qed

text \<open>The nested example validates; the reference to \<^verbatim>\<open>accent/900\<close> does not.\<close>

theorem validate_specification_iff_witness:
  "validate_specification (UniversalRenderer ds_site) spec_nested = Inr True
   \<and> validate_specification (UniversalRenderer ds_site) spec_accent \<noteq> Inr True"
proof -
  have a: "Some ''accent/900'' \<notin> dom (index_tokens ds_site)"
    by (simp add: renderer_defs ds_site_def)
  show ?thesis
    using validate_specification_iff[of ds_site spec_nested]
          validate_specification_iff[of ds_site spec_accent] a
    by (simp add: spec_nested_def spec_accent_def index_components_def ds_site_def)
qed

lemma first_error_Some_iff:
  "first_error cs = Some e \<longleftrightarrow> (\<exists>pre suf. cs = pre @ Some e # suf \<and> (\<forall>c \<in> set pre. c = None))"
proof (induction cs rule: first_error.induct)
  case 1
  show ?case by simp
next
  case (2 rest)
  show ?case
  proof
    assume "first_error (None # rest) = Some e"
    with 2 obtain pre suf where "rest = pre @ Some e # suf" "\<forall>c \<in> set pre. c = None"
      by auto
    then have "None # rest = (None # pre) @ Some e # suf \<and> (\<forall>c \<in> set (None # pre). c = None)"
      by simp
    then show "\<exists>pre suf. None # rest = pre @ Some e # suf \<and> (\<forall>c \<in> set pre. c = None)"
      by blast
  next
    assume "\<exists>pre suf. None # rest = pre @ Some e # suf \<and> (\<forall>c \<in> set pre. c = None)"
    then obtain pre suf where p: "None # rest = pre @ Some e # suf" "\<forall>c \<in> set pre. c = None"
      by blast
    then obtain pre' where "pre = None # pre'"
      by (cases pre) auto
    with p have "rest = pre' @ Some e # suf \<and> (\<forall>c \<in> set pre'. c = None)"
      by simp
    with 2 show "first_error (None # rest) = Some e"
      by auto
  qed
next
  case (3 e' rest)
  show ?case
  proof
    assume "first_error (Some e' # rest) = Some e"
    then have "Some e' # rest = [] @ Some e # rest \<and> (\<forall>c \<in> set []. c = None)"
      by simp
    then show "\<exists>pre suf. Some e' # rest = pre @ Some e # suf \<and> (\<forall>c \<in> set pre. c = None)"
      by blast
  next
    assume "\<exists>pre suf. Some e' # rest = pre @ Some e # suf \<and> (\<forall>c \<in> set pre. c = None)"
    then obtain pre suf where p: "Some e' # rest = pre @ Some e # suf" "\<forall>c \<in> set pre. c = None"
      by blast
    then have "pre = []"
      by (cases pre) auto
    with p show "first_error (Some e' # rest) = Some e"
      by simp
  qed
qed

lemma validate_specification_checks:
  "validate_specification self spec =
     (case first_error (traversal_checks self spec) of None \<Rightarrow> Inr True | Some e \<Rightarrow> Inl e)"
  by (simp add: validate_specification_def traversal_checks_def validate_node_checks
           split: option.splits)

lemma traversal_check_kinds:
  assumes "Some e \<in> set (traversal_checks self spec)"
  shows "\<exists>n \<in> set (nodes spec).
           (e = UnknownComponent (ntype n) \<and> ntype n \<notin> dom (components self)) \<or>
           (\<exists>k s. (k, VStr s) \<in> set (props n) \<and> CHR ''/'' \<in> set s \<and>
                   e = UnknownToken s \<and> Some s \<notin> dom (tokens self))"
proof -
  from assms obtain n where n: "n \<in> set (nodes spec)" "Some e \<in> set (node_checks self n)"
    by (auto simp: traversal_checks_def)
  from n(2) consider
      (ty) "components self (ntype n) = None" "e = UnknownComponent (ntype n)"
    | (pr) kv where "kv \<in> set (props n)" "prop_check self kv = Some e"
    by (auto simp: node_checks_def split: if_splits)
  then show ?thesis
  proof cases
    case ty
    with n(1) show ?thesis by (auto simp: domIff)
  next
    case pr
    obtain k v where kv: "kv = (k, v)" by (cases kv)
    with pr(2) obtain s where "v = VStr s" "CHR ''/'' \<in> set s" "tokens self (Some s) = None"
        "e = UnknownToken s"
      by (cases v) (auto split: if_splits)
    with pr(1) kv n(1) show ?thesis by (auto simp: domIff)
  qed
qed

subsection \<open>C4: the error that validation surfaces\<close>

text \<open>
  Claim C4. When validation fails, the error raised is the first failing check of the
  depth-first pre-order traversal, where a node's type is checked before its props, its
  props in order, and its props before its children, which are visited in order: the
  sequence of checks \<open>traversal_checks\<close> splits into checks that pass, then the error,
  then a rest that plays no role. The error is an unknown component, for the type of a
  node that the component index lacks, or an unknown token, for a prop value containing
  \<^verbatim>\<open>/\<close> that the token index lacks; validation produces no other error.
\<close>

theorem validate_first_error:
  "(validate_specification self spec = Inl e \<longleftrightarrow>
      (\<exists>pre suf. traversal_checks self spec = pre @ Some e # suf \<and> (\<forall>c \<in> set pre. c = None)))
   \<and> (validate_specification self spec = Inl e \<longrightarrow>
        (\<exists>n \<in> set (nodes spec).
           (e = UnknownComponent (ntype n) \<and> ntype n \<notin> dom (components self)) \<or>
           (\<exists>k s. (k, VStr s) \<in> set (props n) \<and> CHR ''/'' \<in> set s \<and>
                   e = UnknownToken s \<and> Some s \<notin> dom (tokens self))))"
proof -
  have a: "validate_specification self spec = Inl e \<longleftrightarrow> first_error (traversal_checks self spec) = Some e"
    by (simp add: validate_specification_checks split: option.splits)
  have b: "validate_specification self spec = Inl e \<Longrightarrow> Some e \<in> set (traversal_checks self spec)"
    using a first_error_Some_mem by blast
  show ?thesis
    using a b traversal_check_kinds[of e self spec] first_error_Some_iff[of "traversal_checks self spec" e]
    by blast
qed

text \<open>In the tree with three faults the token of the root comes first.\<close>

lemma traversal_checks_faulty:
  "traversal_checks (UniversalRenderer ds_site) spec_faulty
     = [None, None] @ Some (UnknownToken ''accent/900'')
       # [Some (UnknownComponent (Some ''Toggle'')), None, Some (UnknownToken ''accent/100'')]"
  by (simp add: traversal_checks_def node_checks_def spec_faulty_def renderer_defs ds_site_def)

theorem validate_first_error_witness:
  "validate_specification (UniversalRenderer ds_site) spec_faulty = Inl (UnknownToken ''accent/900'')"
proof -
  have "\<exists>pre suf. traversal_checks (UniversalRenderer ds_site) spec_faulty
          = pre @ Some (UnknownToken ''accent/900'') # suf \<and> (\<forall>c \<in> set pre. c = None)"
    using traversal_checks_faulty by (intro exI[of _ "[None, None]"] exI) simp
  then show ?thesis
    using validate_first_error[of "UniversalRenderer ds_site" spec_faulty "UnknownToken ''accent/900''"]
    by blast
qed

subsection \<open>C3: the facade returns everything or an error\<close>





subsection \<open>C6: the compiler checks on its own\<close>




subsection \<open>C2: the three forms of an element\<close>

lemma indent_of_spaces: "indent_of d = replicate (2 * nat d) (CHR '' '')"
proof -
  have "concat (replicate n ''  '') = replicate (2 * n) (CHR '' '')" for n :: nat
    by (induction n) simp_all
  then show ?thesis by (simp add: indent_of_def)
qed

lemma jsx_shape:
  assumes "specification_to_jsx self (Node t ps cs c) d = Inr out"
  shows "\<exists>attrs. components self t \<noteq> None \<and> resolve_props self ps = Inr attrs \<and>
           (if cs \<noteq> [] then
              (\<exists>js. map (\<lambda>ch. specification_to_jsx self ch (d + 1)) cs = map Inr js \<and>
                 out = indent_of d @ ''<'' @ name_str t @ '' '' @ attrs @ ''>'' @ [newline]
                       @ join [newline] js @ [newline] @ indent_of d @ ''</'' @ name_str t @ ''>'')
            else if c \<noteq> [] then
              out = indent_of d @ ''<'' @ name_str t @ '' '' @ attrs @ ''>'' @ c
                    @ ''</'' @ name_str t @ ''>''
            else out = indent_of d @ ''<'' @ name_str t @ '' '' @ attrs @ '' />'')"
  using assms
  by (auto simp: component_exists_def children_to_jsx_map split: if_splits sum.splits)

text \<open>
  Claim C2. Whenever the compiler returns a markup for a node, the markup is the
  self-closing element \<^verbatim>\<open><type attrs />\<close> exactly when the node has no child and
  an empty content. With no child and a content it is the opening tag, the content as it
  is, and the closing tag. With children it is the opening tag, a newline, the markups of
  the children, each compiled at depth plus one, joined by newlines, a newline, and the
  closing tag behind the node's own indentation. The indentation of depth \<open>d\<close> is
  \<open>2 * d\<close> spaces. The nested example compiles to the opening Container tag, the Text
  element with \<^verbatim>\<open>Hi\<close> indented by two spaces, and the closing Container tag.
\<close>

theorem jsx_element_forms:
  "(specification_to_jsx self (Node t ps cs c) d = Inr out \<longrightarrow>
      (\<exists>attrs. resolve_props self ps = Inr attrs \<and>
         (out = indent_of d @ ''<'' @ name_str t @ '' '' @ attrs @ '' />'' \<longleftrightarrow> cs = [] \<and> c = []) \<and>
         (cs = [] \<and> c \<noteq> [] \<longrightarrow>
            out = indent_of d @ ''<'' @ name_str t @ '' '' @ attrs @ ''>'' @ c
                  @ ''</'' @ name_str t @ ''>'') \<and>
         (cs \<noteq> [] \<longrightarrow>
            (\<exists>js. map (\<lambda>ch. specification_to_jsx self ch (d + 1)) cs = map Inr js \<and>
               out = indent_of d @ ''<'' @ name_str t @ '' '' @ attrs @ ''>'' @ [newline]
                     @ join [newline] js @ [newline]
                     @ indent_of d @ ''</'' @ name_str t @ ''>''))))
   \<and> indent_of d = replicate (2 * nat d) (CHR '' '')
   \<and> specification_to_jsx (UniversalRenderer ds_site) spec_nested 0
       = Inr (''<Container >'' @ [newline] @ ''  <Text >Hi</Text>'' @ [newline] @ ''</Container>'')"
proof -
  have ex: "specification_to_jsx (UniversalRenderer ds_site) spec_nested 0
       = Inr (''<Container >'' @ [newline] @ ''  <Text >Hi</Text>'' @ [newline] @ ''</Container>'')"
    by (simp add: spec_nested_def renderer_defs ds_site_def)
  have gen: "\<exists>attrs. resolve_props self ps = Inr attrs \<and>
         (out = indent_of d @ ''<'' @ name_str t @ '' '' @ attrs @ '' />'' \<longleftrightarrow> cs = [] \<and> c = []) \<and>
         (cs = [] \<and> c \<noteq> [] \<longrightarrow>
            out = indent_of d @ ''<'' @ name_str t @ '' '' @ attrs @ ''>'' @ c
                  @ ''</'' @ name_str t @ ''>'') \<and>
         (cs \<noteq> [] \<longrightarrow>
            (\<exists>js. map (\<lambda>ch. specification_to_jsx self ch (d + 1)) cs = map Inr js \<and>
               out = indent_of d @ ''<'' @ name_str t @ '' '' @ attrs @ ''>'' @ [newline]
                     @ join [newline] js @ [newline]
                     @ indent_of d @ ''</'' @ name_str t @ ''>''))"
    if h: "specification_to_jsx self (Node t ps cs c) d = Inr out"
  proof -
    from jsx_shape[OF h] obtain attrs where
      a: "resolve_props self ps = Inr attrs" and
      s: "if cs \<noteq> [] then
              (\<exists>js. map (\<lambda>ch. specification_to_jsx self ch (d + 1)) cs = map Inr js \<and>
                 out = indent_of d @ ''<'' @ name_str t @ '' '' @ attrs @ ''>'' @ [newline]
                       @ join [newline] js @ [newline] @ indent_of d @ ''</'' @ name_str t @ ''>'')
            else if c \<noteq> [] then
              out = indent_of d @ ''<'' @ name_str t @ '' '' @ attrs @ ''>'' @ c
                    @ ''</'' @ name_str t @ ''>''
            else out = indent_of d @ ''<'' @ name_str t @ '' '' @ attrs @ '' />''"
      by blast
    have sc: "out = indent_of d @ ''<'' @ name_str t @ '' '' @ attrs @ '' />'' \<longleftrightarrow> cs = [] \<and> c = []"
      using s by (auto split: if_splits)
    show ?thesis
      using a s sc by (intro exI[of _ attrs]) (auto split: if_splits)
  qed
  show ?thesis
    using gen ex indent_of_spaces by blast
qed

text \<open>A Text node without content or children at depth one.\<close>

theorem jsx_element_forms_witness:
  "specification_to_jsx (UniversalRenderer ds_site) (Node (Some ''Text'') [] [] []) 1
     = Inr ''  <Text  />''"
proof -
  have r: "resolve_props (UniversalRenderer ds_site) [] = Inr []"
    by (simp add: renderer_defs)
  have i: "indent_of 1 = ''  ''"
    by (simp add: indent_of_def)
  have "\<exists>out. specification_to_jsx (UniversalRenderer ds_site) (Node (Some ''Text'') [] [] []) 1 = Inr out"
    by (simp add: renderer_defs ds_site_def)
  then obtain out where
    o: "specification_to_jsx (UniversalRenderer ds_site) (Node (Some ''Text'') [] [] []) 1 = Inr out"
    by blast
  show ?thesis
    using jsx_element_forms[of "UniversalRenderer ds_site" "Some ''Text''" "[]" "[]" "[]" 1 out] o r i
    by auto
qed

subsection \<open>C9: children take precedence over content\<close>

lemma jsx_content_irrelevant:
  "cs \<noteq> [] \<Longrightarrow> specification_to_jsx self (Node t ps cs c) d = specification_to_jsx self (Node t ps cs c') d"
  by (simp split: sum.splits)

text \<open>
  Claim C9. For a node that has at least one child and a non-empty content, the compiler
  gives the result it gives for the same node without content: where it returns a markup,
  this is the opening tag, the compiled children joined by newlines and the closing tag,
  and the content does not occur in what the node itself emits.
\<close>

theorem children_before_content:
  "(cs \<noteq> [] \<and> c \<noteq> [] \<longrightarrow>
      specification_to_jsx self (Node t ps cs c) d = specification_to_jsx self (Node t ps cs []) d)
   \<and> (cs \<noteq> [] \<and> c \<noteq> [] \<and> specification_to_jsx self (Node t ps cs c) d = Inr out \<longrightarrow>
        (\<exists>attrs js. resolve_props self ps = Inr attrs \<and>
           map (\<lambda>ch. specification_to_jsx self ch (d + 1)) cs = map Inr js \<and>
           out = indent_of d @ ''<'' @ name_str t @ '' '' @ attrs @ ''>'' @ [newline]
                 @ join [newline] js @ [newline]
                 @ indent_of d @ ''</'' @ name_str t @ ''>''))"
proof -
  have b: "\<exists>attrs js. resolve_props self ps = Inr attrs \<and>
           map (\<lambda>ch. specification_to_jsx self ch (d + 1)) cs = map Inr js \<and>
           out = indent_of d @ ''<'' @ name_str t @ '' '' @ attrs @ ''>'' @ [newline]
                 @ join [newline] js @ [newline]
                 @ indent_of d @ ''</'' @ name_str t @ ''>''"
    if "cs \<noteq> []" "specification_to_jsx self (Node t ps cs c) d = Inr out"
    using jsx_shape[OF that(2)] that(1) by auto
  show ?thesis
    using b jsx_content_irrelevant[of cs self t ps c d "[]"] by blast
qed

text \<open>The content \<^verbatim>\<open>dropped\<close> leaves no trace.\<close>

theorem children_before_content_witness:
  "specification_to_jsx (UniversalRenderer ds_site) spec_both 0
     = Inr (''<Container >'' @ [newline] @ ''  <Text >Hi</Text>'' @ [newline] @ ''</Container>'')"
proof -
  have "specification_to_jsx (UniversalRenderer ds_site)
          (Node (Some ''Container'') [] [Node (Some ''Text'') [] [] ''Hi''] []) 0
     = Inr (''<Container >'' @ [newline] @ ''  <Text >Hi</Text>'' @ [newline] @ ''</Container>'')"
    by (simp add: renderer_defs ds_site_def)
  then show ?thesis
    using children_before_content[of "[Node (Some ''Text'') [] [] ''Hi'']" "''dropped''"
             "UniversalRenderer ds_site" "Some ''Container''" "[]" 0]
    by (simp add: spec_both_def)
qed

lemma validate_map_content:
  "validate_node self (map_content f n) = validate_node self n"
  "validate_children self (map (map_content f) cs) = validate_children self cs"
  by (induction self n and self cs rule: validate_node_validate_children.induct)
     (auto split: sum.splits)

subsection \<open>C10: content is never a token reference\<close>

text \<open>
  Claim C10. The content of a node is not looked up in the token index. Validation gives
  the same result when the contents of all nodes of a tree are replaced by any other
  texts, and when the content of the root alone is replaced; so a content containing
  \<^verbatim>\<open>/\<close> cannot make it fail, whether it names a token or not. When the compiler
  emits a node that has a content and no child, the content stands between the tags as it
  is, whatever the token index holds.
\<close>

theorem content_is_not_a_reference:
  "validate_specification self (map_content f spec) = validate_specification self spec
   \<and> validate_specification self (Node t ps cs c) = validate_specification self (Node t ps cs c')
   \<and> (components self t \<noteq> None \<and> resolve_props self ps = Inr attrs \<and> c \<noteq> [] \<longrightarrow>
        specification_to_jsx self (Node t ps [] c) d
          = Inr (indent_of d @ ''<'' @ name_str t @ '' '' @ attrs @ ''>'' @ c
                 @ ''</'' @ name_str t @ ''>''))"
  by (simp add: validate_specification_def validate_map_content component_exists_def)

text \<open>A content that names no token and a content that names one are both emitted as they
  are; the second is not replaced by the token's value.\<close>

theorem content_is_not_a_reference_witness:
  "validate_specification (UniversalRenderer ds_site) spec_slash_content = Inr True
   \<and> specification_to_jsx (UniversalRenderer ds_site) spec_slash_content 0
       = Inr ''<Text >accent/900</Text>''
   \<and> specification_to_jsx (UniversalRenderer ds_site) spec_token_content 0
       = Inr ''<Text >primary/500</Text>''"
proof -
  have c: "components (UniversalRenderer ds_site) (Some ''Text'') \<noteq> None"
    by (simp add: renderer_defs ds_site_def)
  have r: "resolve_props (UniversalRenderer ds_site) [] = Inr []"
    by (simp add: renderer_defs)
  have v: "validate_specification (UniversalRenderer ds_site) (Node (Some ''Text'') [] [] []) = Inr True"
    by (simp add: renderer_defs ds_site_def)
  have n: "''accent/900'' \<noteq> []" "''primary/500'' \<noteq> []"
    by simp_all
  note t1 = content_is_not_a_reference[of "UniversalRenderer ds_site" "\<lambda>_. []" spec_slash_content
            "Some ''Text''" "[]" "[]" "''accent/900''" "[]" "[]" 0]
  note t2 = content_is_not_a_reference[of "UniversalRenderer ds_site" "\<lambda>_. []" spec_token_content
            "Some ''Text''" "[]" "[]" "''primary/500''" "[]" "[]" 0]
  have a: "validate_specification (UniversalRenderer ds_site) spec_slash_content = Inr True"
    unfolding spec_slash_content_def using t1 v by metis
  have b1: "specification_to_jsx (UniversalRenderer ds_site) (Node (Some ''Text'') [] [] ''accent/900'') 0
       = Inr (indent_of 0 @ ''<'' @ name_str (Some ''Text'') @ '' '' @ [] @ ''>'' @ ''accent/900''
                 @ ''</'' @ name_str (Some ''Text'') @ ''>'')"
    using t1 c r n(1) by blast
  have b2: "specification_to_jsx (UniversalRenderer ds_site) (Node (Some ''Text'') [] [] ''primary/500'') 0
       = Inr (indent_of 0 @ ''<'' @ name_str (Some ''Text'') @ '' '' @ [] @ ''>'' @ ''primary/500''
                 @ ''</'' @ name_str (Some ''Text'') @ ''>'')"
    using t2 c r n(2) by blast
  have i: "indent_of 0 = []"
    by (simp add: indent_of_def)
  show ?thesis
    unfolding spec_slash_content_def spec_token_content_def b1 b2 i
    using a by (simp add: spec_slash_content_def)
qed

subsection \<open>C8: the indices\<close>

lemma last_with_Nil: "last_with P [] = None"
  by (simp add: last_with_def)

lemma last_with_snoc: "last_with P (xs @ [x]) = (if P x then Some x else last_with P xs)"
  by (simp add: last_with_def)

lemma last_with_append:
  "last_with P (xs @ ys) = (case last_with P ys of None \<Rightarrow> last_with P xs | Some y \<Rightarrow> Some y)"
  by (induction ys rule: rev_induct)
     (simp_all add: last_with_Nil last_with_snoc del: append_assoc add: append_assoc[symmetric])

lemma last_with_Cons:
  "last_with P (x # xs) =
     (case last_with P xs of None \<Rightarrow> (if P x then Some x else None) | Some y \<Rightarrow> Some y)"
proof -
  have "last_with P [x] = (if P x then Some x else None)"
    by (simp add: last_with_def)
  then show ?thesis
    using last_with_append[of P "[x]" xs] by (simp split: option.splits)
qed

lemma last_with_Some_iff:
  "last_with P xs = Some x \<longleftrightarrow>
     (\<exists>pre suf. xs = pre @ x # suf \<and> P x \<and> (\<forall>y \<in> set suf. \<not> P y))"
proof (induction xs rule: rev_induct)
  case Nil
  show ?case by (simp add: last_with_Nil)
next
  case (snoc a xs)
  show ?case
  proof (cases "P a")
    case True
    have "(\<exists>pre suf. xs @ [a] = pre @ x # suf \<and> P x \<and> (\<forall>y \<in> set suf. \<not> P y)) \<longleftrightarrow> a = x"
    proof
      assume "\<exists>pre suf. xs @ [a] = pre @ x # suf \<and> P x \<and> (\<forall>y \<in> set suf. \<not> P y)"
      then obtain pre suf where p: "xs @ [a] = pre @ x # suf" "P x" "\<forall>y \<in> set suf. \<not> P y"
        by blast
      show "a = x"
      proof (cases suf rule: rev_cases)
        case Nil
        with p(1) show ?thesis by simp
      next
        case (snoc suf' z)
        with p(1) have "xs @ [a] = (pre @ x # suf') @ [z]" by simp
        then have "a = z" by (simp only: append1_eq_conv)
        with snoc p(3) True show ?thesis by simp
      qed
    next
      assume "a = x"
      then have "xs @ [a] = xs @ x # [] \<and> P x \<and> (\<forall>y \<in> set []. \<not> P y)"
        using True by simp
      then show "\<exists>pre suf. xs @ [a] = pre @ x # suf \<and> P x \<and> (\<forall>y \<in> set suf. \<not> P y)"
        by blast
    qed
    with True show ?thesis by (simp add: last_with_snoc)
  next
    case False
    have "(\<exists>pre suf. xs @ [a] = pre @ x # suf \<and> P x \<and> (\<forall>y \<in> set suf. \<not> P y)) \<longleftrightarrow>
          (\<exists>pre suf. xs = pre @ x # suf \<and> P x \<and> (\<forall>y \<in> set suf. \<not> P y))"
    proof
      assume "\<exists>pre suf. xs @ [a] = pre @ x # suf \<and> P x \<and> (\<forall>y \<in> set suf. \<not> P y)"
      then obtain pre suf where p: "xs @ [a] = pre @ x # suf" "P x" "\<forall>y \<in> set suf. \<not> P y"
        by blast
      show "\<exists>pre suf. xs = pre @ x # suf \<and> P x \<and> (\<forall>y \<in> set suf. \<not> P y)"
      proof (cases suf rule: rev_cases)
        case Nil
        with p(1) have "a = x" by simp
        with p(2) False show ?thesis by simp
      next
        case (snoc suf' z)
        with p(1) have "xs @ [a] = (pre @ x # suf') @ [z]" by simp
        then have "xs = pre @ x # suf'" by (simp only: append1_eq_conv)
        moreover have "\<forall>y \<in> set suf'. \<not> P y" using p(3) snoc by simp
        ultimately show ?thesis using p(2) by blast
      qed
    next
      assume "\<exists>pre suf. xs = pre @ x # suf \<and> P x \<and> (\<forall>y \<in> set suf. \<not> P y)"
      then obtain pre suf where p: "xs = pre @ x # suf" "P x" "\<forall>y \<in> set suf. \<not> P y"
        by blast
      then have "xs @ [a] = pre @ x # (suf @ [a]) \<and> P x \<and> (\<forall>y \<in> set (suf @ [a]). \<not> P y)"
        using False by simp
      then show "\<exists>pre suf. xs @ [a] = pre @ x # suf \<and> P x \<and> (\<forall>y \<in> set suf. \<not> P y)"
        by blast
    qed
    with False snoc show ?thesis by (simp add: last_with_snoc)
  qed
qed

lemma last_with_None_iff: "last_with P xs = None \<longleftrightarrow> (\<forall>x \<in> set xs. \<not> P x)"
  by (induction xs rule: rev_induct) (simp_all add: last_with_Nil last_with_snoc)

lemma index_token_list_last:
  "index_token_list ts index k =
     (case last_with (\<lambda>t. tok_name t = k) ts of None \<Rightarrow> index k | Some t \<Rightarrow> Some t)"
  by (induction ts arbitrary: index)
     (simp_all add: last_with_Nil last_with_Cons split: option.splits)

lemma index_component_list_last:
  "index_component_list cs index k =
     (case last_with (\<lambda>c. comp_name c = k) cs of None \<Rightarrow> index k | Some c \<Rightarrow> Some c)"
  by (induction cs arbitrary: index)
     (simp_all add: last_with_Nil last_with_Cons split: option.splits)

lemma index_tokens_last:
  "index_tokens ds k = last_with (\<lambda>t. tok_name t = k) (enumerate_tokens ds)"
  by (simp add: index_tokens_def enumerate_tokens_def index_token_list_last last_with_append
           split: option.splits)

lemma index_components_last:
  "index_components ds k = last_with (\<lambda>c. comp_name c = k) (enumerate_components ds)"
  by (simp add: index_components_def enumerate_components_def index_component_list_last
           split: option.splits)

text \<open>
  Claim C8. Building the two indices has no error path: \<open>index_tokens\<close> and
  \<open>index_components\<close> are total functions of the design system alone, and the
  constructor stores their results. The token index maps a name to a token exactly when
  that token is the last one with this name in the enumeration colors, typography,
  spacing, and to nothing exactly when no token has the name; the component index does the
  same over the list of components. So with duplicate names the last record wins.
\<close>

theorem index_last_write_wins:
  "(index_tokens ds k = Some t \<longleftrightarrow>
      (\<exists>pre suf. enumerate_tokens ds = pre @ t # suf \<and> tok_name t = k \<and>
                 (\<forall>u \<in> set suf. tok_name u \<noteq> k)))
   \<and> (index_tokens ds k = None \<longleftrightarrow> (\<forall>u \<in> set (enumerate_tokens ds). tok_name u \<noteq> k))
   \<and> (index_components ds k = Some c \<longleftrightarrow>
      (\<exists>pre suf. enumerate_components ds = pre @ c # suf \<and> comp_name c = k \<and>
                 (\<forall>u \<in> set suf. comp_name u \<noteq> k)))
   \<and> (index_components ds k = None \<longleftrightarrow> (\<forall>u \<in> set (enumerate_components ds). comp_name u \<noteq> k))
   \<and> tokens (UniversalRenderer ds) = index_tokens ds
   \<and> components (UniversalRenderer ds) = index_components ds"
proof -
  have "tokens (UniversalRenderer ds) = index_tokens ds"
       "components (UniversalRenderer ds) = index_components ds"
    by (simp_all add: UniversalRenderer_def)
  then show ?thesis
    unfolding index_tokens_last index_components_last last_with_Some_iff last_with_None_iff
    by simp
qed


text \<open>The name \<^verbatim>\<open>gap\<close> is a colour and a spacing: the spacing token, enumerated later,
  is the one indexed; of the two components \<^verbatim>\<open>Card\<close> the second is.\<close>

theorem index_last_write_wins_witness:
  "index_tokens ds_duplicates (Some ''gap'') = Some gap_spacing
   \<and> index_components ds_duplicates (Some ''Card'') = Some card_second"
proof -
  have t: "enumerate_tokens ds_duplicates = [gap_colour] @ gap_spacing # []"
    by (simp add: enumerate_tokens_def ds_duplicates_def get_token_list_def)
  have c: "enumerate_components ds_duplicates = [card_first] @ card_second # []"
    by (simp add: enumerate_components_def ds_duplicates_def)
  have "\<exists>pre suf. enumerate_tokens ds_duplicates = pre @ gap_spacing # suf
          \<and> tok_name gap_spacing = Some ''gap'' \<and> (\<forall>u \<in> set suf. tok_name u \<noteq> Some ''gap'')"
    using t by (intro exI[of _ "[gap_colour]"] exI[of _ "[]"]) (simp add: gap_spacing_def)
  moreover have "\<exists>pre suf. enumerate_components ds_duplicates = pre @ card_second # suf
          \<and> comp_name card_second = Some ''Card'' \<and> (\<forall>u \<in> set suf. comp_name u \<noteq> Some ''Card'')"
    using c by (intro exI[of _ "[card_first]"] exI[of _ "[]"]) (simp add: card_second_def)
  ultimately show ?thesis
    using index_last_write_wins[of ds_duplicates "Some ''gap''" gap_spacing card_second]
          index_last_write_wins[of ds_duplicates "Some ''Card''" gap_spacing card_second]
    by blast
qed

subsection \<open>C7: the metadata extractors\<close>

lemma set_extract_tokens_values:
  "set (extract_tokens_values self ps acc)
     = set acc \<union> {s \<in> set (token_refs ps). Some s \<in> dom (tokens self)}"
  by (induction self ps acc rule: extract_tokens_values.induct)
     (auto simp: domIff split: pyval.splits)

lemma distinct_extract_tokens_values:
  "distinct acc \<Longrightarrow> distinct (extract_tokens_values self ps acc)"
  by (induction self ps acc rule: extract_tokens_values.induct)
     (auto split: pyval.splits)

lemma set_extract_tokens:
  "set (extract_tokens_node self n acc)
     = set acc \<union> {s \<in> set (concat (map (\<lambda>m. token_refs (props m)) (nodes n))). Some s \<in> dom (tokens self)}"
  "set (extract_tokens_children self cs acc)
     = set acc \<union> {s \<in> set (concat (map (\<lambda>m. token_refs (props m)) (concat (map nodes cs)))).
                     Some s \<in> dom (tokens self)}"
  by (induction self n acc and self cs acc rule: extract_tokens_node_extract_tokens_children.induct)
     (auto simp: set_extract_tokens_values)

lemma distinct_extract_tokens:
  "distinct acc \<Longrightarrow> distinct (extract_tokens_node self n acc)"
  "distinct acc \<Longrightarrow> distinct (extract_tokens_children self cs acc)"
  by (induction self n acc and self cs acc rule: extract_tokens_node_extract_tokens_children.induct)
     (auto simp: distinct_extract_tokens_values)

lemma set_extract_components:
  "set (extract_components_node self n acc)
     = set acc \<union> {s. Some s \<in> set (map ntype (nodes n)) \<and> s \<noteq> [] \<and> Some s \<in> dom (components self)}"
  "set (extract_components_children self cs acc)
     = set acc \<union> {s. Some s \<in> set (map ntype (concat (map nodes cs))) \<and> s \<noteq> []
                      \<and> Some s \<in> dom (components self)}"
  by (induction self n acc and self cs acc
        rule: extract_components_node_extract_components_children.induct)
     (auto simp: component_exists_def domIff split: option.splits)

lemma distinct_extract_components:
  "distinct acc \<Longrightarrow> distinct (extract_components_node self n acc)"
  "distinct acc \<Longrightarrow> distinct (extract_components_children self cs acc)"
  by (induction self n acc and self cs acc
        rule: extract_components_node_extract_components_children.induct)
     (auto split: option.splits)


lemma set_token_refs:
  "s \<in> set (token_refs ps) \<longleftrightarrow> (\<exists>k. (k, VStr s) \<in> set ps \<and> CHR ''/'' \<in> set s)"
  by (induction ps rule: token_refs.induct) auto

lemma validated_refs_known:
  assumes "validate_specification self spec = Inr True"
  shows "\<forall>s \<in> set (referenced_tokens spec). Some s \<in> dom (tokens self)"
    and "\<forall>t \<in> set (referenced_types spec). t \<in> dom (components self)"
proof -
  from assms have v: "validate_node self spec = Inr ()"
    by (simp add: validate_specification_def split: sum.splits)
  note ok = v[unfolded validate_node_ok_iff]
  show "\<forall>s \<in> set (referenced_tokens spec). Some s \<in> dom (tokens self)"
  proof
    fix s assume "s \<in> set (referenced_tokens spec)"
    then obtain n k where "n \<in> set (nodes spec)" "(k, VStr s) \<in> set (props n)" "CHR ''/'' \<in> set s"
      by (auto simp: referenced_tokens_def set_token_refs)
    with ok show "Some s \<in> dom (tokens self)"
      by blast
  qed
  show "\<forall>t \<in> set (referenced_types spec). t \<in> dom (components self)"
    using ok by (auto simp: referenced_types_def)
qed

text \<open>
  Claim C7 says that the extractors return all token names and all component types that
  the tree references. They do not when a referenced name is unknown to the design system:
  for a node of type \<^verbatim>\<open>Toggle\<close> with the prop value \<^verbatim>\<open>accent/900\<close>, neither of
  them in the design system, the tree references one token and one type, and both
  extractors return the empty list.
\<close>

theorem extractors_counterexample:
  "referenced_tokens spec_unknowns = [''accent/900'']
   \<and> extract_tokens_from_spec (UniversalRenderer ds_site) spec_unknowns = []
   \<and> referenced_types spec_unknowns = [Some ''Toggle'']
   \<and> extract_components_from_spec (UniversalRenderer ds_site) spec_unknowns = []"
  by (simp add: referenced_tokens_def referenced_types_def spec_unknowns_def renderer_defs
        ds_site_def)

text \<open>
  Claim C7, amended. The token extractor returns, without repetition, exactly those prop
  values of the tree that are strings containing \<^verbatim>\<open>/\<close> and are keys of the token
  index; the component extractor returns, without repetition, exactly those node types of
  the tree that are non-empty strings and are keys of the component index. On a
  specification that validates, the first is every token name the tree references and the
  second is every non-empty type of the tree. Neither result has a duplicate, however often
  a name occurs in the tree.
\<close>

theorem extractors_give_known_names:
  "distinct (extract_tokens_from_spec self spec)
   \<and> set (extract_tokens_from_spec self spec)
       = {s \<in> set (referenced_tokens spec). Some s \<in> dom (tokens self)}
   \<and> distinct (extract_components_from_spec self spec)
   \<and> set (extract_components_from_spec self spec)
       = {s. Some s \<in> set (referenced_types spec) \<and> s \<noteq> [] \<and> Some s \<in> dom (components self)}
   \<and> (validate_specification self spec = Inr True \<longrightarrow>
        set (extract_tokens_from_spec self spec) = set (referenced_tokens spec) \<and>
        set (extract_components_from_spec self spec)
          = {s. Some s \<in> set (referenced_types spec) \<and> s \<noteq> []})"
proof -
  have d1: "distinct (extract_tokens_from_spec self spec)"
    by (simp add: extract_tokens_from_spec_def distinct_extract_tokens)
  have s1: "set (extract_tokens_from_spec self spec)
       = {s \<in> set (referenced_tokens spec). Some s \<in> dom (tokens self)}"
    by (simp add: extract_tokens_from_spec_def set_extract_tokens referenced_tokens_def)
  have d2: "distinct (extract_components_from_spec self spec)"
    by (simp add: extract_components_from_spec_def distinct_extract_components)
  have s2: "set (extract_components_from_spec self spec)
       = {s. Some s \<in> set (referenced_types spec) \<and> s \<noteq> [] \<and> Some s \<in> dom (components self)}"
    by (simp add: extract_components_from_spec_def set_extract_components referenced_types_def)
  have v: "set (extract_tokens_from_spec self spec) = set (referenced_tokens spec) \<and>
        set (extract_components_from_spec self spec)
          = {s. Some s \<in> set (referenced_types spec) \<and> s \<noteq> []}"
    if "validate_specification self spec = Inr True"
    using validated_refs_known[OF that] unfolding s1 s2 by blast
  show ?thesis
    using d1 s1 d2 s2 v by blast
qed

text \<open>A tree that names \<^verbatim>\<open>primary/500\<close> twice and \<^verbatim>\<open>Button\<close> twice.\<close>

theorem extractors_give_known_names_witness:
  "referenced_tokens spec_repeats = [''primary/500'', ''primary/500'', ''heading/h1'']
   \<and> distinct (extract_tokens_from_spec (UniversalRenderer ds_site) spec_repeats)
   \<and> set (extract_tokens_from_spec (UniversalRenderer ds_site) spec_repeats)
       = {''primary/500'', ''heading/h1''}
   \<and> referenced_types spec_repeats = [Some ''Container'', Some ''Button'', Some ''Button'']
   \<and> distinct (extract_components_from_spec (UniversalRenderer ds_site) spec_repeats)
   \<and> set (extract_components_from_spec (UniversalRenderer ds_site) spec_repeats)
       = {''Container'', ''Button''}"
proof -
  have v: "validate_specification (UniversalRenderer ds_site) spec_repeats = Inr True"
    by (simp add: spec_repeats_def renderer_defs ds_site_def)
  have r: "referenced_tokens spec_repeats = [''primary/500'', ''primary/500'', ''heading/h1'']"
    by (simp add: referenced_tokens_def spec_repeats_def)
  have t: "referenced_types spec_repeats = [Some ''Container'', Some ''Button'', Some ''Button'']"
    by (simp add: referenced_types_def spec_repeats_def)
  have c: "{s. Some s \<in> set [Some ''Container'', Some ''Button'', Some ''Button''] \<and> s \<noteq> []}
             = {''Container'', ''Button''}"
    by (simp add: set_eq_iff) blast
  note th = extractors_give_known_names[of "UniversalRenderer ds_site" spec_repeats]
  from th have d1: "distinct (extract_tokens_from_spec (UniversalRenderer ds_site) spec_repeats)"
    by (rule conjunct1)
  from th have d2: "distinct (extract_components_from_spec (UniversalRenderer ds_site) spec_repeats)"
    by blast
  from th v have s1: "set (extract_tokens_from_spec (UniversalRenderer ds_site) spec_repeats)
      = set (referenced_tokens spec_repeats)"
    by blast
  from th v have s2: "set (extract_components_from_spec (UniversalRenderer ds_site) spec_repeats)
      = {s. Some s \<in> set (referenced_types spec_repeats) \<and> s \<noteq> []}"
    by blast
  have s1': "set (extract_tokens_from_spec (UniversalRenderer ds_site) spec_repeats)
      = {''primary/500'', ''heading/h1''}"
    unfolding s1 r by simp
  have s2': "set (extract_components_from_spec (UniversalRenderer ds_site) spec_repeats)
      = {''Container'', ''Button''}"
    unfolding s2 t c ..
  show ?thesis
    using r t d1 d2 s1' s2' by (intro conjI)
qed

subsection \<open>C5: what a prop becomes\<close>

lemma resolve_parts_attributes:
  "resolve_parts self ps acc =
     (case attributes_of self ps of Inl e \<Rightarrow> Inl e | Inr as \<Rightarrow> Inr (acc @ as))"
  by (induction self ps acc rule: resolve_parts.induct)
     (auto simp: resolve_token_def split: pyval.splits option.splits sum.splits)

text \<open>
  Claim C5 says that every literal prop value passes into the emitted attributes unchanged
  and that every token reference is replaced by the \<^verbatim>\<open>value\<close> of its token. The
  boolean \<^verbatim>\<open>False\<close> and a list leave no attribute at all, and a reference to a token
  that has no \<^verbatim>\<open>value\<close> key (a typography token) is emitted as the name itself.
\<close>

theorem resolve_props_counterexample:
  "resolve_props (UniversalRenderer ds_site) [(''disabled'', VBool False)] = Inr []
   \<and> resolve_props (UniversalRenderer ds_site) [(''items'', VOther ''[1, 2]'')] = Inr []
   \<and> resolve_props (UniversalRenderer ds_site) [(''font'', VStr ''heading/h1'')]
       = Inr (''font='' @ [dquote] @ ''heading/h1'' @ [dquote])"
  by (simp add: renderer_defs ds_site_def)

text \<open>
  Claim C5, amended. The attributes that the compiler emits for a prop dict are the
  contributions of its props, in order, joined by single spaces, where each prop
  contributes as \<open>attribute_of\<close> says: a string without \<^verbatim>\<open>/\<close> passes unchanged, in
  double quotes; an int or a float passes unquoted; \<^verbatim>\<open>True\<close> gives the bare key;
  \<^verbatim>\<open>False\<close>, \<^verbatim>\<open>None\<close>, lists and dicts are left out; a string with \<^verbatim>\<open>/\<close> is
  replaced by the text of its token's \<^verbatim>\<open>value\<close>, or stays the name when the token has
  no \<^verbatim>\<open>value\<close>; and the first string with \<^verbatim>\<open>/\<close> that the token index lacks makes
  the compiler fail. For the design system with the colour token
  \<^verbatim>\<open>primary/500 = "#3B82F6"\<close> and the component Button, the facade applied to the
  Button with \<^verbatim>\<open>backgroundColor: "primary/500"\<close> and content \<^verbatim>\<open>Go\<close> returns the
  markup \<^verbatim>\<open><Button backgroundColor="#3B82F6">Go</Button>\<close>, the tokens
  \<^verbatim>\<open>primary/500\<close> and the components \<^verbatim>\<open>Button\<close>.
\<close>

theorem resolve_props_attributes:
  "resolve_props self ps =
     (case attributes_of self ps of Inl e \<Rightarrow> Inl e | Inr as \<Rightarrow> Inr (join '' '' as))
   \<and> render_design_specification (UniversalRenderer ds_button) spec_button
       = Inr \<lparr>jsx = ''<Button backgroundColor='' @ [dquote] @ ''#3B82F6'' @ [dquote]
                    @ ''>Go</Button>'',
              rr_specification = spec_button,
              tokens_used = [''primary/500''],
              components_used = [''Button''],
              valid = True\<rparr>"
proof -
  have "resolve_props self ps =
     (case attributes_of self ps of Inl e \<Rightarrow> Inl e | Inr as \<Rightarrow> Inr (join '' '' as))"
    by (simp add: resolve_props_def resolve_parts_attributes split: sum.splits)
  moreover have "render_design_specification (UniversalRenderer ds_button) spec_button
       = Inr \<lparr>jsx = ''<Button backgroundColor='' @ [dquote] @ ''#3B82F6'' @ [dquote]
                    @ ''>Go</Button>'',
              rr_specification = spec_button,
              tokens_used = [''primary/500''],
              components_used = [''Button''],
              valid = True\<rparr>"
    by (simp add: spec_button_def renderer_defs ds_button_def)
  ultimately show ?thesis ..
qed

lemma str_int_12: "str_int 12 = ''12''"
  by (simp add: str_int_def str_nat.simps digit_char_def)

text \<open>A prop dict with every kind of value.\<close>

theorem resolve_props_attributes_witness:
  "resolve_props (UniversalRenderer ds_site) props_mixed
     = Inr (''size=12 primary font='' @ [dquote] @ ''heading/h1'' @ [dquote]
            @ '' label='' @ [dquote] @ ''Go'' @ [dquote] @ '' ratio=1.5 color='' @ [dquote]
            @ ''#3B82F6'' @ [dquote])"
proof -
  have "attributes_of (UniversalRenderer ds_site) props_mixed
     = Inr [''size=12'', ''primary'', ''font='' @ [dquote] @ ''heading/h1'' @ [dquote],
            ''label='' @ [dquote] @ ''Go'' @ [dquote], ''ratio=1.5'',
            ''color='' @ [dquote] @ ''#3B82F6'' @ [dquote]]"
    by (simp add: props_mixed_def str_int_12 UniversalRenderer_def index_tokens_def
          get_token_list_def ds_site_def)
  then show ?thesis
    using resolve_props_attributes[of "UniversalRenderer ds_site" props_mixed]
    by simp
qed

end
